theory Spec2Isabelle
  imports Main "HOL-Library.Log_Nat"
begin

section \<open>Values of the interpreter\<close>

text \<open>
  The analyzer of \<^verbatim>\<open>src/sentiment_analyzer.py\<close> works on what \<^verbatim>\<open>json.loads\<close> returns, so the
  embedding starts from the values of the interpreter. A Python float is either a finite
  double, written as the rational number it is equal to, or one of the three special values
  (\<^verbatim>\<open>json.loads\<close> accepts \<^verbatim>\<open>Infinity\<close>, \<^verbatim>\<open>-Infinity\<close> and \<^verbatim>\<open>NaN\<close>). Strings are byte strings:
  \<^verbatim>\<open>len\<close> and \<^verbatim>\<open>lower\<close> are those of ASCII text.
\<close>

datatype pyfloat = Fin rat | PInf | NInf | NaN

datatype json =
    JNull
  | JBool bool
  | JInt int
  | JFloat pyfloat
  | JStr string
  | JArr "json list"
  | JObj "(string \<times> json) list"

datatype py_error = AttributeError | TypeError | ValueError | OverflowError

text \<open>\<^verbatim>\<open>d.get(key, default)\<close> on a dictionary given by its items.\<close>

definition dict_get :: "(string \<times> json) list \<Rightarrow> string \<Rightarrow> json \<Rightarrow> json" where
  "dict_get d k dflt = (case map_of d k of None \<Rightarrow> dflt | Some v \<Rightarrow> v)"

text \<open>\<^verbatim>\<open>x.get(...)\<close> exists on dictionaries only; every other value raises AttributeError.\<close>

definition py_get :: "json \<Rightarrow> string \<Rightarrow> json \<Rightarrow> py_error + json" where
  "py_get x k dflt = (case x of JObj d \<Rightarrow> Inr (dict_get d k dflt) | _ \<Rightarrow> Inl AttributeError)"

subsection \<open>Strings\<close>

definition lower_char :: "char \<Rightarrow> char" where
  "lower_char c =
     (let n = (of_char c :: nat) in if 65 \<le> n \<and> n \<le> 90 then char_of (n + 32) else c)"

definition lower :: "string \<Rightarrow> string" where
  "lower s = map lower_char s"

text \<open>\<^verbatim>\<open>x.lower()\<close> exists on strings only.\<close>

definition py_lower :: "json \<Rightarrow> py_error + string" where
  "py_lower x = (case x of JStr s \<Rightarrow> Inr (lower s) | _ \<Rightarrow> Inl AttributeError)"

fun startswith :: "string \<Rightarrow> string \<Rightarrow> bool" where
  "startswith t [] = True"
| "startswith [] (c # w) = False"
| "startswith (d # t) (c # w) = (d = c \<and> startswith t w)"

text \<open>\<^verbatim>\<open>word in text\<close>: the word is a contiguous part of the text.\<close>

fun py_in :: "string \<Rightarrow> string \<Rightarrow> bool" where
  "py_in w [] = (w = [])"
| "py_in w (d # t) = (startswith (d # t) w \<or> py_in w t)"

text \<open>\<^verbatim>\<open>s[:100] + "..." if len(s) > 100 else s\<close>\<close>

definition truncate_text :: "string \<Rightarrow> string" where
  "truncate_text s = (if length s > 100 then take 100 s @ ''...'' else s)"

subsection \<open>Doubles\<close>

text \<open>
  Arithmetic on floats rounds its exact result to the nearest double, ties to the even
  mantissa. \<open>binade x\<close> is the exponent \<open>e\<close> with \<open>2 ^ e \<le> x < 2 ^ (e + 1)\<close> of a positive
  \<open>x\<close>; a double of that binade is a multiple of \<open>2 powi (e - 52)\<close>. The exponent range is
  not bounded here: the values this program computes with \<open>to_double\<close> lie between 0
  and 100, far from overflow, and underflow needs a list of more than \<open>2 ^ 1000\<close> results.
\<close>

definition round_half_even :: "rat \<Rightarrow> int" where
  "round_half_even x =
     (let f = \<lfloor>x\<rfloor>; d = x - of_int f
      in if d < 1/2 then f else if 1/2 < d then f + 1 else if even f then f else f + 1)"

definition binade :: "rat \<Rightarrow> int" where
  "binade x =
     (if 1 \<le> x then int (floorlog 2 (nat \<lfloor>x\<rfloor>)) - 1
      else - int (floorlog 2 (nat (\<lceil>1 / x\<rceil> - 1))))"

definition to_double :: "rat \<Rightarrow> rat" where
  "to_double x =
     (if x = 0 then 0
      else let u = 2 powi (binade \<bar>x\<bar> - 52)
           in sgn x * of_int (round_half_even (\<bar>x\<bar> / u)) * u)"

text \<open>
  \<^verbatim>\<open>round(x, n)\<close> on a float: the exact value of \<open>x\<close> is rounded to \<open>n\<close> decimals, ties to
  even, and the decimal result is converted to the nearest double.
\<close>

definition py_round :: "rat \<Rightarrow> nat \<Rightarrow> rat" where
  "py_round x n = to_double (of_int (round_half_even (x * 10 ^ n)) / 10 ^ n)"

text \<open>\<^verbatim>\<open>a / b\<close> on integers is the correctly rounded quotient; \<^verbatim>\<open>x * 100\<close> rounds the product.\<close>

definition int_truediv :: "nat \<Rightarrow> nat \<Rightarrow> rat" where
  "int_truediv a b = to_double (of_nat a / of_nat b)"

definition float_mul :: "rat \<Rightarrow> rat \<Rightarrow> rat" where
  "float_mul x y = to_double (x * y)"

subsection \<open>The conversions \<^verbatim>\<open>float(x)\<close> and \<^verbatim>\<open>int(x)\<close>\<close>

text \<open>
  Both conversions parse a string argument. The two parsers belong to the interpreter and
  are parameters of the model; \<open>None\<close> is the string they reject with ValueError. The
  response of the external model and the clock are the other two things the analyzer
  takes from outside: \<open>capability\<close> is described below, and \<open>now\<close> is what
  \<^verbatim>\<open>datetime.now().isoformat()\<close> returns, one value for a run, since no statement here
  depends on a time stamp.
\<close>

datatype request = SinglePrompt string | BatchPrompt "string list"

text \<open>
  What one call of \<^verbatim>\<open>generate_content\<close> followed by the search for the JSON text and
  \<^verbatim>\<open>json.loads\<close> gives: the call or \<^verbatim>\<open>response.text\<close> raises; the regular expression finds
  nothing; \<^verbatim>\<open>json.loads\<close> raises; or a value is loaded.
\<close>

datatype response = CallRaises | NoMatch | LoadsRaises | Loaded json

record env =
  capability :: "nat \<Rightarrow> request \<Rightarrow> response"
  now :: nat
  float_of_str :: "string \<Rightarrow> pyfloat option"
  int_of_str :: "string \<Rightarrow> int option"

text \<open>
  An integer converts to the nearest double; one that rounds beyond the largest double,
  \<open>2 ^ 1024 - 2 ^ 971\<close>, raises OverflowError.
\<close>

definition py_float :: "env \<Rightarrow> json \<Rightarrow> py_error + pyfloat" where
  "py_float E x =
     (case x of
        JFloat f \<Rightarrow> Inr f
      | JInt i \<Rightarrow> (if 2 ^ 1024 - 2 ^ 970 \<le> \<bar>i\<bar> then Inl OverflowError
                   else Inr (Fin (to_double (of_int i))))
      | JBool b \<Rightarrow> Inr (Fin (if b then 1 else 0))
      | JStr s \<Rightarrow> (case float_of_str E s of None \<Rightarrow> Inl ValueError | Some f \<Rightarrow> Inr f)
      | _ \<Rightarrow> Inl TypeError)"

text \<open>\<^verbatim>\<open>int\<close> of a float truncates towards zero.\<close>

definition trunc :: "rat \<Rightarrow> int" where
  "trunc q = (if 0 \<le> q then \<lfloor>q\<rfloor> else \<lceil>q\<rceil>)"

definition py_int :: "env \<Rightarrow> json \<Rightarrow> py_error + int" where
  "py_int E x =
     (case x of
        JInt i \<Rightarrow> Inr i
      | JBool b \<Rightarrow> Inr (if b then 1 else 0)
      | JFloat (Fin q) \<Rightarrow> Inr (trunc q)
      | JFloat NaN \<Rightarrow> Inl ValueError
      | JFloat _ \<Rightarrow> Inl OverflowError
      | JStr s \<Rightarrow> (case int_of_str E s of None \<Rightarrow> Inl ValueError | Some i \<Rightarrow> Inr i)
      | _ \<Rightarrow> Inl TypeError)"

text \<open>
  Comparison of floats; every comparison with NaN is false. \<^verbatim>\<open>min(a, b)\<close> is \<open>b\<close> when
  \<open>b < a\<close> and \<open>a\<close> otherwise, \<^verbatim>\<open>max(a, b)\<close> is \<open>b\<close> when \<open>b > a\<close> and \<open>a\<close> otherwise.
\<close>

fun float_less :: "pyfloat \<Rightarrow> pyfloat \<Rightarrow> bool" where
  "float_less (Fin a) (Fin b) = (a < b)"
| "float_less NaN _ = False"
| "float_less _ NaN = False"
| "float_less NInf NInf = False"
| "float_less NInf _ = True"
| "float_less _ NInf = False"
| "float_less PInf _ = False"
| "float_less _ PInf = True"

definition float_min :: "pyfloat \<Rightarrow> pyfloat \<Rightarrow> pyfloat" where
  "float_min a b = (if float_less b a then b else a)"

definition float_max :: "pyfloat \<Rightarrow> pyfloat \<Rightarrow> pyfloat" where
  "float_max a b = (if float_less a b then b else a)"

section \<open>Results\<close>

text \<open>
  A result is the dictionary built by \<^verbatim>\<open>validate_result\<close> and \<^verbatim>\<open>fallback_analysis\<close>; its
  keys are fixed, so it is a record. \<open>emotions\<close> and \<open>key_phrases\<close> hold whatever value
  the response had there.
\<close>

record result =
  sentiment :: string
  confidence :: pyfloat
  emotions :: json
  key_phrases :: json
  intensity :: int
  original_text :: string
  analyzed_at :: nat

definition sentiments :: "string list" where
  "sentiments = [''positive'', ''negative'', ''neutral'']"

text \<open>
  \<^verbatim>\<open>validate_result\<close>. The dictionary literal evaluates its entries in order, so the first
  entry that raises decides the error.
\<close>

definition validate_result :: "env \<Rightarrow> json \<Rightarrow> string \<Rightarrow> py_error + result" where
  "validate_result E res text =
     (case py_get res ''sentiment'' (JStr ''neutral'') of Inl e \<Rightarrow> Inl e | Inr s0 \<Rightarrow>
     (case py_lower s0 of Inl e \<Rightarrow> Inl e | Inr s \<Rightarrow>
     (case py_get res ''confidence'' (JFloat (Fin (1/2))) of Inl e \<Rightarrow> Inl e | Inr c0 \<Rightarrow>
     (case py_float E c0 of Inl e \<Rightarrow> Inl e | Inr c \<Rightarrow>
     (case py_get res ''emotions'' (JArr [JStr ''neutral'']) of Inl e \<Rightarrow> Inl e | Inr em \<Rightarrow>
     (case py_get res ''key_phrases'' (JArr []) of Inl e \<Rightarrow> Inl e | Inr kp \<Rightarrow>
     (case py_get res ''intensity'' (JInt 5) of Inl e \<Rightarrow> Inl e | Inr i0 \<Rightarrow>
     (case py_int E i0 of Inl e \<Rightarrow> Inl e | Inr i \<Rightarrow>
        Inr \<lparr> sentiment = (if s \<in> set sentiments then s else ''neutral''),
              confidence = float_max (Fin 0) (float_min (Fin 1) c),
              emotions = em,
              key_phrases = kp,
              intensity = max 1 (min 10 i),
              original_text = truncate_text text,
              analyzed_at = now E \<rparr>))))))))"

text \<open>\<^verbatim>\<open>fallback_analysis\<close>\<close>

definition positive_words :: "string list" where
  "positive_words = [''good'', ''great'', ''excellent'', ''amazing'', ''love'', ''best'',
     ''wonderful'', ''fantastic'']"

definition negative_words :: "string list" where
  "negative_words = [''bad'', ''terrible'', ''awful'', ''hate'', ''worst'', ''horrible'',
     ''disappointing'']"

text \<open>\<^verbatim>\<open>sum(1 for word in words if word in text_lower)\<close>\<close>

definition word_count :: "string list \<Rightarrow> string \<Rightarrow> nat" where
  "word_count ws text_lower = length (filter (\<lambda>w. py_in w text_lower) ws)"

definition fallback_analysis :: "env \<Rightarrow> string \<Rightarrow> result" where
  "fallback_analysis E text =
     (let text_lower = lower text;
          positive_count = word_count positive_words text_lower;
          negative_count = word_count negative_words text_lower;
          (s, c) = (if positive_count > negative_count then (''positive'', to_double (6/10))
                    else if negative_count > positive_count then (''negative'', to_double (6/10))
                    else (''neutral'', 1/2))
      in \<lparr> sentiment = s,
           confidence = Fin c,
           emotions = JArr [JStr ''neutral''],
           key_phrases = JArr [],
           intensity = 5,
           original_text = truncate_text text,
           analyzed_at = now E \<rparr>)"

section \<open>Calling the external model\<close>

text \<open>
  The analyzer's only state is outside it: the model it calls. A run is described by the
  list of requests issued so far; the \<open>n\<close>-th call (counting from 0) with request \<open>r\<close>
  gets \<open>capability E n r\<close>, so a model that answers differently each time is covered.
  Messages printed to the console are left out.
\<close>

definition analyze_single_text :: "env \<Rightarrow> request list \<Rightarrow> string \<Rightarrow> result \<times> request list" where
  "analyze_single_text E calls text =
     (let calls' = calls @ [SinglePrompt text]
      in case capability E (length calls) (SinglePrompt text) of
           Loaded j \<Rightarrow>
             (case validate_result E j text of
                Inr r \<Rightarrow> (r, calls')
              | Inl e \<Rightarrow> (fallback_analysis E text, calls'))
         | _ \<Rightarrow> (fallback_analysis E text, calls'))"

text \<open>\<^verbatim>\<open>[self.analyze_single_text(text) for text in texts]\<close>\<close>

fun analyze_each :: "env \<Rightarrow> request list \<Rightarrow> string list \<Rightarrow> result list \<times> request list" where
  "analyze_each E calls [] = ([], calls)"
| "analyze_each E calls (t # ts) =
     (let (r, c1) = analyze_single_text E calls t;
          (rs, c2) = analyze_each E c1 ts
      in (r # rs, c2))"

text \<open>
  Iterating over a value: a list gives its elements, a string its characters, a
  dictionary its keys; anything else raises TypeError.
\<close>

definition py_iter :: "json \<Rightarrow> py_error + json list" where
  "py_iter x =
     (case x of
        JArr xs \<Rightarrow> Inr xs
      | JStr s \<Rightarrow> Inr (map (\<lambda>c. JStr [c]) s)
      | JObj d \<Rightarrow> Inr (map (\<lambda>kv. JStr (fst kv)) d)
      | _ \<Rightarrow> Inl TypeError)"

text \<open>
  The loop \<^verbatim>\<open>for i, result in enumerate(results): if i < len(texts): ...\<close>: entry \<open>i\<close> is
  validated against text \<open>i\<close>; entries from position \<^verbatim>\<open>len(texts)\<close> on are skipped.
\<close>

fun validate_all :: "env \<Rightarrow> json list \<Rightarrow> string list \<Rightarrow> py_error + result list" where
  "validate_all E [] ts = Inr []"
| "validate_all E (r # rs) [] = Inr []"
| "validate_all E (r # rs) (t # ts) =
     (case validate_result E r t of
        Inl e \<Rightarrow> Inl e
      | Inr v \<Rightarrow> (case validate_all E rs ts of Inl e \<Rightarrow> Inl e | Inr vs \<Rightarrow> Inr (v # vs)))"

definition analyze_batch_gemini :: "env \<Rightarrow> request list \<Rightarrow> string list \<Rightarrow> result list \<times> request list" where
  "analyze_batch_gemini E calls texts =
     (let calls' = calls @ [BatchPrompt texts]
      in case capability E (length calls) (BatchPrompt texts) of
           Loaded j \<Rightarrow>
             (case py_iter j of
                Inl e \<Rightarrow> analyze_each E calls' texts
              | Inr items \<Rightarrow>
                  (case validate_all E items texts of
                     Inl e \<Rightarrow> analyze_each E calls' texts
                   | Inr validated_results \<Rightarrow> (validated_results, calls')))
         | _ \<Rightarrow> analyze_each E calls' texts)"

text \<open>\<^verbatim>\<open>analyze_batch\<close>: the slices \<^verbatim>\<open>texts[i:i+5]\<close> for \<^verbatim>\<open>i\<close> in \<^verbatim>\<open>range(0, len(texts), 5)\<close>.\<close>

function analyze_batch :: "env \<Rightarrow> request list \<Rightarrow> string list \<Rightarrow> result list \<times> request list" where
  "analyze_batch E calls texts =
     (if texts = [] then ([], calls)
      else let (batch_results, c1) = analyze_batch_gemini E calls (take 5 texts);
               (rest, c2) = analyze_batch E c1 (drop 5 texts)
           in (batch_results @ rest, c2))"
  by pat_completeness auto
termination
  by (relation "measure (\<lambda>(E, calls, texts). length texts)") auto

section \<open>Summary statistics\<close>

text \<open>
  The dictionary returned for a non-empty list has fixed keys and is a record; the empty
  dictionary \<^verbatim>\<open>{}\<close> returned for an empty list is \<open>None\<close>. The two averages are left out:
  they are sums of floats, whose value depends on the summation the interpreter uses,
  and nothing below is about them.
\<close>

record summary =
  total_analyzed :: nat
  positive_count :: nat
  negative_count :: nat
  neutral_count :: nat
  positive_percentage :: rat
  negative_percentage :: rat
  neutral_percentage :: rat
  top_emotions :: "(json \<times> nat) list"

text \<open>\<^verbatim>\<open>for r in results: all_emotions.extend(r["emotions"])\<close>\<close>

fun all_emotions :: "result list \<Rightarrow> py_error + json list" where
  "all_emotions [] = Inr []"
| "all_emotions (r # rs) =
     (case py_iter (emotions r) of
        Inl e \<Rightarrow> Inl e
      | Inr xs \<Rightarrow> (case all_emotions rs of Inl e \<Rightarrow> Inl e | Inr ys \<Rightarrow> Inr (xs @ ys)))"

text \<open>
  Keys of a dictionary: lists and dictionaries are not hashable; numbers are the same key
  when they are equal as numbers (\<^verbatim>\<open>True\<close>, \<^verbatim>\<open>1\<close> and \<^verbatim>\<open>1.0\<close>). \<open>dict_key\<close> is the
  representative of a key. A NaN is the same key as a NaN: \<^verbatim>\<open>json.loads\<close> returns one
  object for every NaN it reads, and a dictionary finds a key that is the same object.
  A dictionary keeps its keys in the order of their first insertion, and the key it shows
  is the one inserted first.
\<close>

fun py_hashable :: "json \<Rightarrow> bool" where
  "py_hashable (JArr _) = False"
| "py_hashable (JObj _) = False"
| "py_hashable _ = True"

fun dict_key :: "json \<Rightarrow> json" where
  "dict_key (JBool b) = JInt (if b then 1 else 0)"
| "dict_key (JFloat (Fin q)) = (if of_int \<lfloor>q\<rfloor> = q then JInt \<lfloor>q\<rfloor> else JFloat (Fin q))"
| "dict_key x = x"

text \<open>\<^verbatim>\<open>emotion_counts[emotion] = emotion_counts.get(emotion, 0) + 1\<close>\<close>

fun bump :: "(json \<times> nat) list \<Rightarrow> json \<Rightarrow> (json \<times> nat) list" where
  "bump [] k = [(k, 1)]"
| "bump ((k', n) # d) k =
     (if dict_key k' = dict_key k then (k', n + 1) # d else (k', n) # bump d k)"

fun count_emotions :: "(json \<times> nat) list \<Rightarrow> json list \<Rightarrow> py_error + (json \<times> nat) list" where
  "count_emotions d [] = Inr d"
| "count_emotions d (x # xs) =
     (if py_hashable x then count_emotions (bump d x) xs else Inl TypeError)"

text \<open>
  \<^verbatim>\<open>sorted(items, key=lambda x: x[1], reverse=True)[:5]\<close>: the sort is stable, also with
  \<^verbatim>\<open>reverse=True\<close>, so it is the stable sort by the negated count.
\<close>

definition top5 :: "(json \<times> nat) list \<Rightarrow> (json \<times> nat) list" where
  "top5 d = take 5 (sort_key (\<lambda>kv. - int (snd kv)) d)"

text \<open>\<^verbatim>\<open>round((count / total) * 100, 1)\<close>\<close>

definition percentage :: "nat \<Rightarrow> nat \<Rightarrow> rat" where
  "percentage c n = py_round (float_mul (int_truediv c n) 100) 1"

definition count_sentiment :: "string \<Rightarrow> result list \<Rightarrow> nat" where
  "count_sentiment s results = length (filter (\<lambda>r. sentiment r = s) results)"

definition get_summary_stats :: "result list \<Rightarrow> py_error + summary option" where
  "get_summary_stats results =
     (if results = [] then Inr None
      else let n = length results;
               positive = count_sentiment ''positive'' results;
               negative = count_sentiment ''negative'' results;
               neutral = count_sentiment ''neutral'' results
           in case all_emotions results of
                Inl e \<Rightarrow> Inl e
              | Inr es \<Rightarrow>
                  (case count_emotions [] es of
                     Inl e \<Rightarrow> Inl e
                   | Inr emotion_counts \<Rightarrow>
                       Inr (Some \<lparr> total_analyzed = n,
                                   positive_count = positive,
                                   negative_count = negative,
                                   neutral_count = neutral,
                                   positive_percentage = percentage positive n,
                                   negative_percentage = percentage negative n,
                                   neutral_percentage = percentage neutral n,
                                   top_emotions = top5 emotion_counts \<rparr>)))"

section \<open>Predicates and inputs used in the statements\<close>

text \<open>
  The domain of a result as the data model states it: the sentiment is one of the three
  labels, the confidence a number between 0 and 1, the intensity between 1 and 10, the
  emotions a non-empty list of strings and the key phrases a list of strings.
  \<open>core_domain\<close> is its part about the first three fields.
\<close>

definition is_str :: "json \<Rightarrow> bool" where
  "is_str v = (case v of JStr s \<Rightarrow> True | _ \<Rightarrow> False)"

definition is_string_list :: "json \<Rightarrow> bool" where
  "is_string_list v = (case v of JArr xs \<Rightarrow> list_all is_str xs | _ \<Rightarrow> False)"

definition core_domain :: "result \<Rightarrow> bool" where
  "core_domain r =
     (sentiment r \<in> set sentiments
      \<and> (case confidence r of Fin q \<Rightarrow> 0 \<le> q \<and> q \<le> 1 | _ \<Rightarrow> False)
      \<and> 1 \<le> intensity r \<and> intensity r \<le> 10)"

definition result_domain :: "result \<Rightarrow> bool" where
  "result_domain r =
     (core_domain r
      \<and> is_string_list (emotions r) \<and> emotions r \<noteq> JArr []
      \<and> is_string_list (key_phrases r))"



definition json_field :: "json \<Rightarrow> string \<Rightarrow> json option" where
  "json_field res k = (case res of JObj d \<Rightarrow> map_of d k | _ \<Rightarrow> None)"



text \<open>
  The count of the fallback as the specification words it, "occurrences of words from the
  list within the text": every position of the text at which a word of the list starts
  counts.
\<close>

fun count_occurrences :: "string \<Rightarrow> string \<Rightarrow> nat" where
  "count_occurrences w [] = 0"
| "count_occurrences w (d # t) = (if startswith (d # t) w then 1 else 0) + count_occurrences w t"

definition occurrence_count :: "string list \<Rightarrow> string \<Rightarrow> nat" where
  "occurrence_count ws t = sum_list (map (\<lambda>w. count_occurrences w t) ws)"

text \<open>
  A chunk fails when its call gives no list of validated results: the call or the parse
  fails, or the loaded value cannot be iterated, or validating an entry raises.
  \<open>single_outcome E n t\<close> is the result of the individual analysis of \<open>t\<close> when it is
  the \<open>n\<close>-th call.
\<close>

definition chunk_failed :: "env \<Rightarrow> request list \<Rightarrow> string list \<Rightarrow> bool" where
  "chunk_failed E calls texts =
     (case capability E (length calls) (BatchPrompt texts) of
        Loaded j \<Rightarrow>
          (case py_iter j of
             Inl e \<Rightarrow> True
           | Inr items \<Rightarrow> (case validate_all E items texts of Inl e \<Rightarrow> True | Inr vs \<Rightarrow> False))
      | _ \<Rightarrow> True)"

definition single_outcome :: "env \<Rightarrow> nat \<Rightarrow> string \<Rightarrow> result" where
  "single_outcome E n t =
     (case capability E n (SinglePrompt t) of
        Loaded j \<Rightarrow> (case validate_result E j t of Inr r \<Rightarrow> r | Inl e \<Rightarrow> fallback_analysis E t)
      | _ \<Rightarrow> fallback_analysis E t)"

text \<open>
  The values the aggregator counts: what iterating over the \<open>emotions\<close> of each result
  gives, in order. They can be counted when every \<open>emotions\<close> can be iterated and every
  value it gives is hashable.
\<close>

definition emotion_items :: "result list \<Rightarrow> json list" where
  "emotion_items rs =
     concat (map (\<lambda>r. case py_iter (emotions r) of Inr xs \<Rightarrow> xs | Inl e \<Rightarrow> []) rs)"

definition emotions_countable :: "result list \<Rightarrow> bool" where
  "emotions_countable rs =
     list_all (\<lambda>r. case py_iter (emotions r) of Inr xs \<Rightarrow> list_all py_hashable xs | Inl e \<Rightarrow> False) rs"

text \<open>
  The ranking of the emotions of a list \<open>es\<close>, stated on the list itself: the number of
  values of \<open>es\<close> that are the same emotion as \<open>k\<close>, the position of the first of them, and
  the order "more occurrences, or as many and first seen earlier".
\<close>

definition occurrences :: "json list \<Rightarrow> json \<Rightarrow> nat" where
  "occurrences es k = length (filter (\<lambda>x. dict_key x = dict_key k) es)"

definition first_pos :: "json list \<Rightarrow> json \<Rightarrow> nat" where
  "first_pos es k = length (takeWhile (\<lambda>x. dict_key x \<noteq> dict_key k) es)"

definition ranks_before :: "json list \<Rightarrow> json \<Rightarrow> json \<Rightarrow> bool" where
  "ranks_before es a b =
     (occurrences es b < occurrences es a
      \<or> (occurrences es a = occurrences es b \<and> first_pos es a < first_pos es b))"

subsection \<open>Concrete inputs\<close>

text \<open>An environment whose model is unreachable and whose parsers reject every string.\<close>

definition env_down :: env where
  "env_down = \<lparr> capability = (\<lambda>n r. CallRaises), now = 0,
                 float_of_str = (\<lambda>s. None), int_of_str = (\<lambda>s. None) \<rparr>"

text \<open>
  Seven texts; the model answers the first chunk with the entries of ids 0, 1, 2 and 4
  (the entry of id 3 is missing) and the second chunk with both of its entries.
\<close>

definition entry :: "int \<Rightarrow> string \<Rightarrow> json" where
  "entry i s = JObj [(''id'', JInt i), (''sentiment'', JStr s), (''confidence'', JFloat (Fin (3/4))),
                     (''emotions'', JArr [JStr ''calm'']), (''key_phrases'', JArr []),
                     (''intensity'', JInt 4)]"

definition seven_texts :: "string list" where
  "seven_texts = [''t0'', ''t1'', ''t2'', ''t3'', ''t4'', ''t5'', ''t6'']"

definition env_omits :: env where
  "env_omits = \<lparr> capability = (\<lambda>n r.
                    if n = 0 then Loaded (JArr [entry 0 ''positive'', entry 1 ''positive'',
                                                entry 2 ''positive'', entry 4 ''negative''])
                    else Loaded (JArr [entry 0 ''neutral'', entry 1 ''neutral''])),
                  now = 0, float_of_str = (\<lambda>s. None), int_of_str = (\<lambda>s. None) \<rparr>"

text \<open>
  A model whose chunk calls raise and whose individual calls answer
  \<^verbatim>\<open>{"sentiment": "positive"}\<close>.
\<close>

definition env_retry :: env where
  "env_retry = \<lparr> capability = (\<lambda>n r. case r of
                      BatchPrompt ts \<Rightarrow> CallRaises
                    | SinglePrompt t \<Rightarrow> Loaded (JObj [(''sentiment'', JStr ''positive'')])),
                  now = 0, float_of_str = (\<lambda>s. None), int_of_str = (\<lambda>s. None) \<rparr>"

text \<open>Results with given sentiment and emotions, and three of them, one per sentiment.\<close>

definition mk_result :: "string \<Rightarrow> string list \<Rightarrow> result" where
  "mk_result s es = \<lparr> sentiment = s, confidence = Fin (1/2), emotions = JArr (map JStr es),
                      key_phrases = JArr [], intensity = 5, original_text = ''x'',
                      analyzed_at = 0 \<rparr>"

definition three_results :: "result list" where
  "three_results = [mk_result ''positive'' [''joy''], mk_result ''negative'' [''anger'', ''joy''],
                    mk_result ''neutral'' [''calm'']]"

text \<open>
  Results with nine emotions \<^verbatim>\<open>a b c d e f z z z\<close>, results one of which has the string
  \<^verbatim>\<open>"happy"\<close> for its emotions, and a model that answers a chunk of two texts with an entry
  whose emotions are the number 7.
\<close>

definition nine_emotions :: "result list" where
  "nine_emotions = [mk_result ''positive'' [''a'', ''b'', ''c''],
                    mk_result ''negative'' [''d'', ''e'', ''f'', ''z''],
                    mk_result ''neutral'' [''z'', ''z'']]"

definition happy_results :: "result list" where
  "happy_results = [(mk_result ''positive'' []) \<lparr> emotions := JStr ''happy'' \<rparr>,
                    mk_result ''negative'' [''sad'']]"

definition env_seven :: env where
  "env_seven = \<lparr> capability = (\<lambda>n r.
                    Loaded (JArr [JObj [(''sentiment'', JStr ''positive''), (''emotions'', JInt 7)],
                                  JObj [(''sentiment'', JStr ''negative'')]])),
                  now = 0, float_of_str = (\<lambda>s. None), int_of_str = (\<lambda>s. None) \<rparr>"

declare analyze_batch.simps [simp del]

section \<open>Rounding to a double\<close>

lemma rhe_floor: "of_int \<lfloor>x\<rfloor> \<le> x \<and> x < of_int \<lfloor>x\<rfloor> + (1::rat)"
  by linarith

lemma rhe_bounds: "\<bar>of_int (round_half_even x) - x\<bar> \<le> 1/2"
  using rhe_floor[of x] by (auto simp: round_half_even_def Let_def)

lemma rhe_unique:
  assumes "\<bar>of_int k - x\<bar> < 1/2"
  shows "round_half_even x = k"
proof -
  have "\<bar>(of_int (round_half_even x) :: rat) - of_int k\<bar> < 1"
    using rhe_bounds[of x] assms by linarith
  then have "\<bar>round_half_even x - k\<bar> < 1"
    by (metis of_int_diff of_int_abs of_int_less_1_iff)
  then show ?thesis by linarith
qed

lemma binade_ge1:
  assumes "1 \<le> x"
  shows "2 powi binade x \<le> x \<and> x < 2 powi (binade x + 1)"
proof -
  define n where "n = nat \<lfloor>x\<rfloor>"
  have n1: "0 < n" using assms by (simp add: n_def)
  have nx: "of_nat n \<le> x" "x < of_nat n + 1"
    using assms by (simp_all add: n_def) linarith+
  define k where "k = floorlog 2 n"
  from floorlog_bounds[of n 2] n1 have b: "2 ^ (k - 1) \<le> n" "n < 2 ^ k"
    by (simp_all add: k_def)
  have k1: "0 < k" using b(2) n1 by (cases k) simp_all
  have bx: "binade x = int k - 1" using assms by (simp add: binade_def k_def n_def)
  have "(2::rat) ^ (k - 1) \<le> of_nat n"
    using b(1) by (metis of_nat_le_iff of_nat_numeral of_nat_power)
  then have "(2::rat) ^ (k - 1) \<le> x"
    using nx(1) by (rule order_trans)
  moreover have "(2::rat) powi (int k - 1) = 2 ^ (k - 1)"
    using k1 by (simp add: power_int_def nat_diff_distrib')
  ultimately have lo: "(2::rat) powi (int k - 1) \<le> x"
    by simp
  have "n + 1 \<le> 2 ^ k" using b(2) by simp
  then have "(of_nat (n + 1) :: rat) \<le> 2 ^ k"
    by (metis of_nat_le_iff of_nat_numeral of_nat_power)
  then have hi: "x < (2::rat) powi (int k)"
    using nx(2) by (simp add: power_int_def)
  show ?thesis using lo hi by (simp add: bx)
qed

lemma binade_lt1:
  assumes "0 < x" "x < 1"
  shows "2 powi binade x \<le> x \<and> x < 2 powi (binade x + 1)"
proof -
  define y where "y = 1 / x"
  have y1: "1 < y" using assms by (simp add: y_def)
  define m where "m = nat (\<lceil>y\<rceil> - 1)"
  have c2: "2 \<le> \<lceil>y\<rceil>" using y1 by linarith
  have m1: "0 < m" using c2 by (simp add: m_def)
  have my: "of_nat m < y" "y \<le> of_nat m + 1"
    using c2 by (simp_all add: m_def) linarith+
  define k where "k = floorlog 2 m"
  from floorlog_bounds[of m 2] m1 have b: "2 ^ (k - 1) \<le> m" "m < 2 ^ k"
    by (simp_all add: k_def)
  have k1: "0 < k" using b(2) m1 by (cases k) simp_all
  have bx: "binade x = - int k" using assms by (simp add: binade_def k_def m_def y_def)
  have "m + 1 \<le> 2 ^ k" using b(2) by simp
  then have "(of_nat (m + 1) :: rat) \<le> 2 ^ k"
    by (metis of_nat_le_iff of_nat_numeral of_nat_power)
  then have "y \<le> 2 ^ k" using my(2) by simp
  then have "1 \<le> 2 ^ k * x"
    using assms(1) by (simp add: y_def pos_divide_le_eq)
  then have "1 / 2 ^ k \<le> x"
    by (simp add: pos_divide_le_eq mult.commute)
  then have lo: "(2::rat) powi (- int k) \<le> x"
    by (simp add: power_int_minus_divide)
  have "(2::rat) ^ (k - 1) \<le> of_nat m"
    using b(1) by (metis of_nat_le_iff of_nat_numeral of_nat_power)
  then have "(2::rat) ^ (k - 1) < y" using my(1) by (rule le_less_trans)
  then have "2 ^ (k - 1) * x < 1"
    using assms(1) by (simp add: y_def pos_less_divide_eq)
  then have "x < 1 / 2 ^ (k - 1)"
    by (simp add: pos_less_divide_eq mult.commute)
  moreover have e: "- int k + 1 = - int (k - 1)" using k1 by simp
  have "(2::rat) powi (- int k + 1) = 1 / 2 ^ (k - 1)"
    unfolding e by (simp only: power_int_minus_divide power_int_of_nat)
  ultimately have hi: "x < (2::rat) powi (- int k + 1)"
    by (simp only:)
  show ?thesis using lo hi by (simp add: bx)
qed

lemma binade_bounds:
  assumes "0 < x"
  shows "2 powi binade x \<le> x" and "x < 2 powi (binade x + 1)"
  using binade_ge1[of x] binade_lt1[of x] assms by (cases "1 \<le> x"; simp)+

lemma binade_unique:
  assumes "0 < x" "2 powi e \<le> x" "x < 2 powi (e + 1)"
  shows "binade x = e"
proof (rule ccontr)
  assume ne: "binade x \<noteq> e"
  have two: "(1::rat) < 2" by simp
  show False
  proof (cases "binade x < e")
    case True
    then have "binade x + 1 \<le> e" by simp
    then have "(2::rat) powi (binade x + 1) \<le> 2 powi e"
      by (intro power_int_increasing) simp_all
    with binade_bounds(2)[OF assms(1)] assms(2) show False by linarith
  next
    case False
    with ne have "e + 1 \<le> binade x" by simp
    then have "(2::rat) powi (e + 1) \<le> 2 powi binade x"
      by (intro power_int_increasing) simp_all
    with binade_bounds(1)[OF assms(1)] assms(3) show False by linarith
  qed
qed

lemma to_double_pos:
  assumes "0 < x"
  shows "to_double x = of_int (round_half_even (x / 2 powi (binade x - 52))) * 2 powi (binade x - 52)"
  using assms by (simp add: to_double_def Let_def)

lemma to_double_minus: "to_double (- x) = - to_double x"
  by (simp add: to_double_def Let_def sgn_minus)

lemma ulp_le:
  assumes "0 < x"
  shows "(2::rat) powi (binade x - 52) \<le> x / 2 ^ 52"
proof -
  have "(2::rat) powi (binade x - 52) = 2 powi binade x / 2 powi 52"
    by (simp add: power_int_diff)
  also have "\<dots> = 2 powi binade x / 2 ^ 52" by simp
  also have "\<dots> \<le> x / 2 ^ 52"
    using binade_bounds(1)[OF assms] by (simp add: divide_right_mono)
  finally show ?thesis .
qed

lemma to_double_error_pos:
  assumes "0 < x"
  shows "\<bar>to_double x - x\<bar> \<le> x / 2 ^ 53"
proof -
  define u :: rat where "u = 2 powi (binade x - 52)"
  have u0: "0 < u" by (simp add: u_def zero_less_power_int)
  define k where "k = round_half_even (x / u)"
  have td: "to_double x = of_int k * u"
    using to_double_pos[OF assms] by (simp add: u_def k_def)
  have "\<bar>of_int k - x / u\<bar> \<le> 1/2" using rhe_bounds[of "x / u"] by (simp add: k_def)
  then have "\<bar>of_int k - x / u\<bar> * u \<le> 1/2 * u"
    using u0 by (intro mult_right_mono) simp_all
  moreover have "\<bar>of_int k - x / u\<bar> * u = \<bar>of_int k * u - x\<bar>"
    using u0 by (simp add: abs_mult[symmetric, of _ u, simplified] field_simps abs_mult_pos)
  ultimately have "\<bar>of_int k * u - x\<bar> \<le> u / 2" by simp
  moreover have "u / 2 \<le> x / 2 ^ 53"
    using ulp_le[OF assms] by (simp add: u_def)
  ultimately show ?thesis by (simp add: td)
qed

lemma to_double_error: "\<bar>to_double x - x\<bar> \<le> \<bar>x\<bar> / 2 ^ 53"
proof (cases "0 < x")
  case True
  then show ?thesis using to_double_error_pos[of x] by simp
next
  case False
  show ?thesis
  proof (cases "x = 0")
    case True
    then show ?thesis by (simp add: to_double_def)
  next
    case False
    with \<open>\<not> 0 < x\<close> have "0 < - x" by simp
    from to_double_error_pos[OF this] show ?thesis
      by (simp add: to_double_minus)
  qed
qed

lemma to_double_eqI:
  assumes "0 < x" "2 powi e \<le> x" "x < 2 powi (e + 1)"
    and "\<bar>of_int k - x / 2 powi (e - 52)\<bar> < 1/2"
  shows "to_double x = of_int k * 2 powi (e - 52)"
  using to_double_pos[OF assms(1)] binade_unique[OF assms(1-3)] rhe_unique[OF assms(4)]
  by simp

lemma to_double_6_10: "0 \<le> to_double (6/10) \<and> to_double (6/10) \<le> 1"
proof -
  have "\<bar>6/10 :: rat\<bar> / 2 ^ 53 \<le> 1/10" by simp
  with to_double_error[of "6/10"] have "\<bar>to_double (6/10) - 6/10\<bar> \<le> 1/10" by linarith
  then show ?thesis by linarith
qed

section \<open>Validation\<close>

lemma clamp_confidence:
  "\<exists>q. float_max (Fin 0) (float_min (Fin 1) c) = Fin q \<and> 0 \<le> q \<and> q \<le> 1"
  by (cases c) (auto simp: float_max_def float_min_def)




lemma validate_result_Inr:
  assumes "validate_result E res t = Inr r"
  shows "\<exists>d s c i. res = JObj d
           \<and> py_lower (dict_get d ''sentiment'' (JStr ''neutral'')) = Inr s
           \<and> py_float E (dict_get d ''confidence'' (JFloat (Fin (1/2)))) = Inr c
           \<and> py_int E (dict_get d ''intensity'' (JInt 5)) = Inr i
           \<and> r = \<lparr> sentiment = (if s \<in> set sentiments then s else ''neutral''),
                    confidence = float_max (Fin 0) (float_min (Fin 1) c),
                    emotions = dict_get d ''emotions'' (JArr [JStr ''neutral'']),
                    key_phrases = dict_get d ''key_phrases'' (JArr []),
                    intensity = max 1 (min 10 i),
                    original_text = truncate_text t,
                    analyzed_at = now E \<rparr>"
  using assms
  by (cases res) (auto simp add: validate_result_def py_get_def split: sum.splits)

lemma validate_result_core:
  assumes "validate_result E res t = Inr r"
  shows "core_domain r"
proof -
  from validate_result_Inr[OF assms] obtain d s c i where
    r: "r = \<lparr> sentiment = (if s \<in> set sentiments then s else ''neutral''),
                    confidence = float_max (Fin 0) (float_min (Fin 1) c),
                    emotions = dict_get d ''emotions'' (JArr [JStr ''neutral'']),
                    key_phrases = dict_get d ''key_phrases'' (JArr []),
                    intensity = max 1 (min 10 i),
                    original_text = truncate_text t,
                    analyzed_at = now E \<rparr>"
    by blast
  have "sentiment r \<in> set sentiments" by (simp add: r sentiments_def)
  moreover have "case confidence r of Fin q \<Rightarrow> 0 \<le> q \<and> q \<le> 1 | _ \<Rightarrow> False"
    using clamp_confidence[of c] by (auto simp: r)
  moreover have "1 \<le> intensity r \<and> intensity r \<le> 10" by (simp add: r)
  ultimately show ?thesis by (simp add: core_domain_def)
qed

lemma validate_result_lists:
  assumes "validate_result E res t = Inr r"
  shows "emotions r = (case json_field res ''emotions'' of None \<Rightarrow> JArr [JStr ''neutral''] | Some v \<Rightarrow> v)
       \<and> key_phrases r = (case json_field res ''key_phrases'' of None \<Rightarrow> JArr [] | Some v \<Rightarrow> v)"
  using validate_result_Inr[OF assms]
  by (auto simp: json_field_def dict_get_def)




section \<open>The fallback\<close>

lemma startswith_iff: "startswith t w \<longleftrightarrow> (\<exists>b. t = w @ b)"
  by (induction t w rule: startswith.induct) auto

lemma py_in_iff: "py_in w t \<longleftrightarrow> (\<exists>a b. t = a @ w @ b)"
proof (induction t)
  case Nil
  show ?case by auto
next
  case (Cons d t)
  have "(\<exists>a b. d # t = a @ w @ b) \<longleftrightarrow> (\<exists>b. d # t = w @ b) \<or> (\<exists>a b. t = a @ w @ b)"
  proof
    assume "\<exists>a b. d # t = a @ w @ b"
    then obtain a b where ab: "d # t = a @ w @ b" by blast
    show "(\<exists>b. d # t = w @ b) \<or> (\<exists>a b. t = a @ w @ b)"
    proof (cases a)
      case Nil
      with ab show ?thesis by auto
    next
      case (Cons x a')
      with ab have "t = a' @ w @ b" by simp
      then show ?thesis by blast
    qed
  next
    assume "(\<exists>b. d # t = w @ b) \<or> (\<exists>a b. t = a @ w @ b)"
    then show "\<exists>a b. d # t = a @ w @ b"
    proof
      assume "\<exists>b. d # t = w @ b"
      then obtain b where "d # t = [] @ w @ b" by auto
      then show ?thesis by blast
    next
      assume "\<exists>a b. t = a @ w @ b"
      then obtain a b where "t = a @ w @ b" by blast
      then have "d # t = (d # a) @ w @ b" by simp
      then show ?thesis by blast
    qed
  qed
  with Cons show ?case by (simp add: startswith_iff)
qed

lemma word_count_card:
  assumes "distinct ws"
  shows "word_count ws t = card {w \<in> set ws. \<exists>a b. t = a @ w @ b}"
proof -
  have "{w \<in> set ws. \<exists>a b. t = a @ w @ b} = {w. py_in w t} \<inter> set ws"
    by (auto simp: py_in_iff)
  then show ?thesis
    using assms by (simp add: word_count_def distinct_length_filter)
qed

lemma distinct_positive_words: "distinct positive_words"
  by (simp add: positive_words_def)

lemma distinct_negative_words: "distinct negative_words"
  by (simp add: negative_words_def)

lemma fallback_analysis_domain: "result_domain (fallback_analysis E t)"
  using to_double_6_10
  by (simp add: fallback_analysis_def Let_def result_domain_def core_domain_def sentiments_def
      is_string_list_def is_str_def)

lemma lower_good_good_bad: "lower ''good good bad'' = ''good good bad''"
  by (simp add: lower_def lower_char_def)

section \<open>Calls and results of the orchestration\<close>

lemma analyze_single_text_calls:
  "snd (analyze_single_text E calls t) = calls @ [SinglePrompt t]"
  by (simp add: analyze_single_text_def Let_def split: response.splits sum.splits)

lemma fst_analyze_single_text:
  "fst (analyze_single_text E calls t) = single_outcome E (length calls) t"
  by (simp add: analyze_single_text_def single_outcome_def Let_def split: response.splits sum.splits)

lemma single_outcome_core: "core_domain (single_outcome E n t)"
  using fallback_analysis_domain[of E t]
  by (auto simp: single_outcome_def result_domain_def dest: validate_result_core
      split: response.splits sum.splits)

lemma analyze_each_Cons:
  "analyze_each E calls (t # ts) =
     (fst (analyze_single_text E calls t) # fst (analyze_each E (calls @ [SinglePrompt t]) ts),
      snd (analyze_each E (calls @ [SinglePrompt t]) ts))"
  using analyze_single_text_calls[of E calls t]
  by (simp add: split_beta)

lemma length_analyze_each: "length (fst (analyze_each E calls ts)) = length ts"
  by (induction ts arbitrary: calls) (simp_all add: analyze_each_Cons del: analyze_each.simps(2))

lemma calls_analyze_each: "snd (analyze_each E calls ts) = calls @ map SinglePrompt ts"
  by (induction ts arbitrary: calls) (simp_all add: analyze_each_Cons del: analyze_each.simps(2))

lemma nth_analyze_each:
  "i < length ts \<Longrightarrow>
   fst (analyze_each E calls ts) ! i =
     fst (analyze_single_text E (calls @ map SinglePrompt (take i ts)) (ts ! i))"
proof (induction ts arbitrary: calls i)
  case Nil
  then show ?case by simp
next
  case (Cons t ts)
  show ?case
  proof (cases i)
    case 0
    then show ?thesis by (simp add: analyze_each_Cons del: analyze_each.simps(2))
  next
    case (Suc k)
    with Cons.prems have "k < length ts" by simp
    from Cons.IH[OF this, of "calls @ [SinglePrompt t]"] Suc
    show ?thesis by (simp add: analyze_each_Cons del: analyze_each.simps(2))
  qed
qed

lemma analyze_each_core: "r \<in> set (fst (analyze_each E calls ts)) \<Longrightarrow> core_domain r"
  by (induction ts arbitrary: calls)
    (auto simp: analyze_each_Cons fst_analyze_single_text single_outcome_core
      simp del: analyze_each.simps(2))

lemma length_validate_all:
  "validate_all E items ts = Inr vs \<Longrightarrow> length vs = min (length items) (length ts)"
  by (induction E items ts arbitrary: vs rule: validate_all.induct) (auto split: sum.splits)

lemma validate_all_core:
  "validate_all E items ts = Inr vs \<Longrightarrow> r \<in> set vs \<Longrightarrow> core_domain r"
  by (induction E items ts arbitrary: vs rule: validate_all.induct)
    (auto split: sum.splits dest: validate_result_core)

lemma chunk_failed_each:
  "chunk_failed E calls texts \<Longrightarrow>
   analyze_batch_gemini E calls texts = analyze_each E (calls @ [BatchPrompt texts]) texts"
  by (auto simp: chunk_failed_def analyze_batch_gemini_def Let_def split: response.splits sum.splits)

lemma analyze_batch_gemini_core:
  "r \<in> set (fst (analyze_batch_gemini E calls texts)) \<Longrightarrow> core_domain r"
  by (auto simp: analyze_batch_gemini_def Let_def
      dest: analyze_each_core validate_all_core split: response.splits sum.splits)

lemma analyze_batch_core:
  "r \<in> set (fst (analyze_batch E calls texts)) \<Longrightarrow> core_domain r"
proof (induction E calls texts rule: analyze_batch.induct)
  case (1 E calls texts)
  show ?case
  proof (cases "texts = []")
    case True
    with "1.prems" show ?thesis by (simp add: analyze_batch.simps)
  next
    case False
    obtain b c1 where g: "analyze_batch_gemini E calls (take 5 texts) = (b, c1)"
      by (cases "analyze_batch_gemini E calls (take 5 texts)")
    obtain rest c2 where a: "analyze_batch E c1 (drop 5 texts) = (rest, c2)"
      by (cases "analyze_batch E c1 (drop 5 texts)")
    from "1.prems" False g a have "r \<in> set b \<or> r \<in> set rest"
      by (simp add: analyze_batch.simps[of E calls texts])
    then show ?thesis
    proof
      assume "r \<in> set b"
      then show ?thesis using analyze_batch_gemini_core[of r E calls "take 5 texts"] g by simp
    next
      assume "r \<in> set rest"
      then show ?thesis using "1.IH"[OF False g[symmetric] refl] a by simp
    qed
  qed
qed

section \<open>Counting and ranking emotions\<close>

lemma py_iter_error: "py_iter x = Inl e \<Longrightarrow> e = TypeError"
  by (auto simp: py_iter_def split: json.splits)

lemma all_emotions_Inr:
  "list_all (\<lambda>r. \<not> isl (py_iter (emotions r))) rs \<Longrightarrow> all_emotions rs = Inr (emotion_items rs)"
  by (induction rs) (auto simp: emotion_items_def split: sum.splits)

lemma all_emotions_Inl:
  "\<not> list_all (\<lambda>r. \<not> isl (py_iter (emotions r))) rs \<Longrightarrow> all_emotions rs = Inl TypeError"
  by (induction rs) (auto split: sum.splits dest: py_iter_error)

lemma count_emotions_foldl:
  "count_emotions d xs = (if list_all py_hashable xs then Inr (foldl bump d xs) else Inl TypeError)"
  by (induction xs arbitrary: d) simp_all

lemma emotions_countable_iff:
  "emotions_countable rs \<longleftrightarrow>
     list_all (\<lambda>r. \<not> isl (py_iter (emotions r))) rs \<and> list_all py_hashable (emotion_items rs)"
  by (induction rs) (auto simp: emotions_countable_def emotion_items_def split: sum.splits)

lemma bump_keys:
  "map fst (bump d k) =
     (if dict_key k \<in> dict_key ` fst ` set d then map fst d else map fst d @ [k])"
  by (induction d) (force split: if_splits)+

lemma bump_entries:
  assumes "distinct (map (\<lambda>p. dict_key (fst p)) d)"
  shows "set (bump d k) =
     (if dict_key k \<in> dict_key ` fst ` set d
      then (\<lambda>p. if dict_key (fst p) = dict_key k then (fst p, snd p + 1) else p) ` set d
      else insert (k, 1) (set d))"
  using assms
proof (induction d)
  case Nil
  then show ?case by simp
next
  case (Cons p d)
  obtain k' n where p: "p = (k', n)" by (cases p)
  show ?case
  proof (cases "dict_key k' = dict_key k")
    case True
    with Cons.prems p have "dict_key k \<notin> dict_key ` fst ` set d" by (auto simp: image_iff)
    then have "(\<lambda>p. if dict_key (fst p) = dict_key k then (fst p, snd p + 1) else p) ` set d = set d"
      by (auto simp: image_iff)
    with True p show ?thesis by simp
  next
    case False
    with Cons p show ?thesis by auto
  qed
qed

lemma first_pos_append_in:
  "dict_key a \<in> dict_key ` set xs \<Longrightarrow> first_pos (xs @ ys) a = first_pos xs a"
  by (auto simp: first_pos_def takeWhile_append1)

lemma first_pos_less: "dict_key a \<in> dict_key ` set xs \<Longrightarrow> first_pos xs a < length xs"
  unfolding first_pos_def
  by (induction xs) auto

lemma first_pos_new: "dict_key a \<notin> dict_key ` set xs \<Longrightarrow> first_pos (xs @ [a]) a = length xs"
  unfolding first_pos_def
  by (induction xs) auto

lemma first_pos_key: "first_pos xs a < length xs \<Longrightarrow> dict_key (xs ! first_pos xs a) = dict_key a"
  unfolding first_pos_def
  using nth_length_takeWhile[of "\<lambda>x. dict_key x \<noteq> dict_key a" xs] by simp

lemma first_pos_cong: "dict_key a = dict_key b \<Longrightarrow> first_pos xs a = first_pos xs b"
  by (simp add: first_pos_def)

lemma occurrences_cong: "dict_key a = dict_key b \<Longrightarrow> occurrences xs a = occurrences xs b"
  by (simp add: occurrences_def)

lemma occurrences_snoc:
  "occurrences (xs @ [x]) k = occurrences xs k + (if dict_key x = dict_key k then 1 else 0)"
  by (simp add: occurrences_def)

lemma occurrences_0: "dict_key k \<notin> dict_key ` set xs \<Longrightarrow> occurrences xs k = 0"
  by (force simp: occurrences_def filter_empty_conv image_iff)


text \<open>
  The dictionary after counting a list: one entry per key, holding the element that
  brought the key in and the number of elements with that key, in the order in which the
  keys came in.
\<close>

lemma counted:
  "distinct (map (\<lambda>p. dict_key (fst p)) (foldl bump [] xs))
   \<and> dict_key ` fst ` set (foldl bump [] xs) = dict_key ` set xs
   \<and> (\<forall>p \<in> set (foldl bump [] xs).
         snd p = occurrences xs (fst p) \<and> first_pos xs (fst p) < length xs
       \<and> fst p = xs ! first_pos xs (fst p))
   \<and> sorted_wrt (\<lambda>a b. first_pos xs a < first_pos xs b) (map fst (foldl bump [] xs))"
proof (induction xs rule: rev_induct)
  case Nil
  then show ?case by simp
next
  case (snoc x xs)
  define d where "d = foldl bump [] xs"
  from snoc have dist: "distinct (map (\<lambda>p. dict_key (fst p)) d)"
    and keys: "dict_key ` fst ` set d = dict_key ` set xs"
    and ent: "\<forall>p \<in> set d. snd p = occurrences xs (fst p) \<and> first_pos xs (fst p) < length xs
                \<and> fst p = xs ! first_pos xs (fst p)"
    and ord: "sorted_wrt (\<lambda>a b. first_pos xs a < first_pos xs b) (map fst d)"
    by (simp_all add: d_def)
  have f: "foldl bump [] (xs @ [x]) = bump d x" by (simp add: d_def)
  have k: "map fst (bump d x) = (if dict_key x \<in> dict_key ` set xs then map fst d else map fst d @ [x])"
    using bump_keys[of d x] keys by simp
  have e: "set (bump d x) =
     (if dict_key x \<in> dict_key ` set xs
      then (\<lambda>p. if dict_key (fst p) = dict_key x then (fst p, snd p + 1) else p) ` set d
      else insert (x, 1) (set d))"
    using bump_entries[OF dist, of x] keys by simp
  have old: "dict_key (fst p) \<in> dict_key ` set xs" if "p \<in> set d" for p
    using that keys by blast
  have 1: "distinct (map (\<lambda>p. dict_key (fst p)) (bump d x))"
  proof -
    have "map (\<lambda>p. dict_key (fst p)) (bump d x) = map dict_key (map fst (bump d x))"
      by simp
    also have "\<dots> = (if dict_key x \<in> dict_key ` set xs then map (\<lambda>p. dict_key (fst p)) d
                      else map (\<lambda>p. dict_key (fst p)) d @ [dict_key x])"
      unfolding k by simp
    finally show ?thesis using dist keys by (auto simp: image_iff)
  qed
  have 2: "dict_key ` fst ` set (bump d x) = dict_key ` set (xs @ [x])"
  proof -
    have "fst ` set (bump d x) = set (map fst (bump d x))" by simp
    also have "\<dots> = (if dict_key x \<in> dict_key ` set xs then fst ` set d else insert x (fst ` set d))"
      unfolding k by simp
    finally show ?thesis using keys by auto
  qed
  have 3: "\<forall>p \<in> set (bump d x).
         snd p = occurrences (xs @ [x]) (fst p) \<and> first_pos (xs @ [x]) (fst p) < length (xs @ [x])
       \<and> fst p = (xs @ [x]) ! first_pos (xs @ [x]) (fst p)"
  proof
    fix p assume p: "p \<in> set (bump d x)"
    show "snd p = occurrences (xs @ [x]) (fst p) \<and> first_pos (xs @ [x]) (fst p) < length (xs @ [x])
       \<and> fst p = (xs @ [x]) ! first_pos (xs @ [x]) (fst p)"
    proof (cases "dict_key x \<in> dict_key ` set xs")
      case True
      with p e have "p \<in> (\<lambda>p. if dict_key (fst p) = dict_key x then (fst p, snd p + 1) else p) ` set d"
        by simp
      then obtain q where q: "q \<in> set d"
        "p = (if dict_key (fst q) = dict_key x then (fst q, snd q + 1) else q)"
        by blast
      have fq: "fst p = fst q" using q(2) by (simp split: if_splits)
      have sq: "snd p = snd q + (if dict_key x = dict_key (fst q) then 1 else 0)"
        using q(2) by (auto split: if_splits)
      from ent q(1) have eq: "snd q = occurrences xs (fst q)" "first_pos xs (fst q) < length xs"
        "fst q = xs ! first_pos xs (fst q)" by auto
      have fp: "first_pos (xs @ [x]) (fst q) = first_pos xs (fst q)"
        using old[OF q(1)] by (rule first_pos_append_in)
      show ?thesis
        unfolding fq fp using eq sq by (simp add: occurrences_snoc nth_append)
    next
      case False
      with p e have "p = (x, 1) \<or> p \<in> set d" by auto
      then show ?thesis
      proof
        assume px: "p = (x, 1)"
        show ?thesis
          using False by (simp add: px occurrences_snoc occurrences_0 first_pos_new)
      next
        assume pd: "p \<in> set d"
        from ent pd have eq: "snd p = occurrences xs (fst p)" "first_pos xs (fst p) < length xs"
          "fst p = xs ! first_pos xs (fst p)" by auto
        have ne: "dict_key x \<noteq> dict_key (fst p)" using old[OF pd] False by auto
        have fp: "first_pos (xs @ [x]) (fst p) = first_pos xs (fst p)"
          using old[OF pd] by (rule first_pos_append_in)
        show ?thesis
          unfolding fp using eq ne by (simp add: occurrences_snoc nth_append)
      qed
    qed
  qed
  have ord': "sorted_wrt (\<lambda>a b. first_pos (xs @ [x]) a < first_pos (xs @ [x]) b) (map fst d)"
  proof (rule sorted_wrt_mono_rel[OF _ ord])
    fix a b
    assume ab: "a \<in> set (map fst d)" "b \<in> set (map fst d)"
      and less: "first_pos xs a < first_pos xs b"
    have "dict_key a \<in> dict_key ` set xs" "dict_key b \<in> dict_key ` set xs"
      using ab keys by auto
    then have "first_pos (xs @ [x]) a = first_pos xs a" "first_pos (xs @ [x]) b = first_pos xs b"
      by (simp_all add: first_pos_append_in)
    with less show "first_pos (xs @ [x]) a < first_pos (xs @ [x]) b"
      by simp
  qed
  have 4: "sorted_wrt (\<lambda>a b. first_pos (xs @ [x]) a < first_pos (xs @ [x]) b)
             (map fst (bump d x))"
  proof (cases "dict_key x \<in> dict_key ` set xs")
    case True
    then show ?thesis using ord' by (simp add: k)
  next
    case False
    have "\<forall>a \<in> set (map fst d). first_pos (xs @ [x]) a < first_pos (xs @ [x]) x"
    proof
      fix a assume "a \<in> set (map fst d)"
      then have a: "dict_key a \<in> dict_key ` set xs" using keys by auto
      then show "first_pos (xs @ [x]) a < first_pos (xs @ [x]) x"
        using first_pos_less[OF a] by (simp add: first_pos_append_in first_pos_new[OF False])
    qed
    then show ?thesis using ord' False by (simp add: k sorted_wrt_append)
  qed
  show ?case unfolding f using 1 2 3 4 by blast
qed

lemma sorted_wrt_filter_nth:
  assumes "sorted_wrt R (filter P xs)" "i < j" "j < length xs" "P (xs ! i)" "P (xs ! j)"
  shows "R (xs ! i) (xs ! j)"
proof -
  have i: "i < length xs" using assms(2,3) by simp
  have "xs = take i xs @ xs ! i # drop (Suc i) xs"
    using id_take_nth_drop[OF i] .
  moreover have "drop (Suc i) xs = take (j - Suc i) (drop (Suc i) xs)
      @ drop (Suc i) xs ! (j - Suc i) # drop (Suc (j - Suc i)) (drop (Suc i) xs)"
    using assms(2,3) by (intro id_take_nth_drop) simp
  moreover have "drop (Suc i) xs ! (j - Suc i) = xs ! j"
    using assms(2,3) by simp
  ultimately obtain a b c where "xs = a @ xs ! i # b @ xs ! j # c"
    by metis
  then have "filter P xs = filter P a @ xs ! i # filter P b @ xs ! j # filter P c"
    using assms(4,5) by (metis filter.simps(2) filter_append)
  with assms(1) show ?thesis
    by (simp add: sorted_wrt_append)
qed

text \<open>
  The stable sort by falling count, of a list given in the order of a measure \<open>g\<close> of its
  keys: counts fall along the result, and among equal counts \<open>g\<close> rises.
\<close>

lemma sort_ranking:
  fixes d :: "(json \<times> nat) list" and g :: "json \<Rightarrow> nat"
  defines "S \<equiv> sort_key (\<lambda>kv. - int (snd kv)) d"
  assumes "sorted_wrt (\<lambda>a b. g a < g b) (map fst d)"
    and "i < j" "j < length S"
  shows "snd (S ! j) < snd (S ! i) \<or> (snd (S ! i) = snd (S ! j) \<and> g (fst (S ! i)) < g (fst (S ! j)))"
proof -
  define f :: "json \<times> nat \<Rightarrow> int" where "f = (\<lambda>kv. - int (snd kv))"
  have S: "S = sort_key f d" by (simp add: S_def f_def)
  have i: "i < length S" using assms(3,4) by simp
  have "sorted (map f S)" unfolding S by (rule sorted_sort_key)
  moreover have "i \<le> j" using assms(3) by simp
  moreover have "j < length (map f S)" using assms(4) by simp
  ultimately have "map f S ! i \<le> map f S ! j" by (rule sorted_nth_mono)
  then have "f (S ! i) \<le> f (S ! j)" using i assms(4) by (simp only: nth_map)
  then have le: "snd (S ! j) \<le> snd (S ! i)" unfolding f_def by simp
  show ?thesis
  proof (cases "snd (S ! j) = snd (S ! i)")
    case False
    with le show ?thesis by simp
  next
    case True
    then have eq: "f (S ! j) = f (S ! i)" unfolding f_def by simp
    define R where "R = (\<lambda>(a :: json \<times> nat) (b :: json \<times> nat). g (fst a) < g (fst b))"
    define P where "P = (\<lambda>y. f y = f (S ! i))"
    have "sorted_wrt R d" using assms(2) unfolding R_def sorted_wrt_map .
    then have "sorted_wrt R (filter P d)"
      by (rule sorted_wrt_filter)
    moreover have "filter P S = filter P d"
      unfolding S P_def by (rule sort_key_stable)
    ultimately have "sorted_wrt R (filter P S)" by (simp only:)
    moreover have "P (S ! i)" "P (S ! j)" using eq by (simp_all only: P_def)
    ultimately have "R (S ! i) (S ! j)"
      using assms(3,4) by (intro sorted_wrt_filter_nth[of R P S i j])
    then have "g (fst (S ! i)) < g (fst (S ! j))" unfolding R_def .
    with True show ?thesis by simp
  qed
qed

lemma top5_characterised:
  fixes es :: "json list"
  defines "tp \<equiv> top5 (foldl bump [] es)"
  shows "length tp = min 5 (card (dict_key ` set es))"
    and "\<forall>p \<in> set tp. first_pos es (fst p) < length es \<and> fst p = es ! first_pos es (fst p)
           \<and> snd p = occurrences es (fst p)"
    and "\<forall>i j. i < j \<and> j < length tp \<longrightarrow> ranks_before es (fst (tp ! i)) (fst (tp ! j))"
    and "\<forall>x \<in> set es. dict_key x \<notin> dict_key ` fst ` set tp \<longrightarrow>
           (\<forall>p \<in> set tp. ranks_before es (fst p) x)"
proof -
  define d where "d = foldl bump [] es"
  define S where "S = sort_key (\<lambda>kv. - int (snd kv)) d"
  have tp: "tp = take 5 S" by (simp add: tp_def top5_def S_def d_def)
  from counted[of es] have dist: "distinct (map (\<lambda>p. dict_key (fst p)) d)"
    and keys: "dict_key ` fst ` set d = dict_key ` set es"
    and ent: "\<forall>p \<in> set d. snd p = occurrences es (fst p) \<and> first_pos es (fst p) < length es
                \<and> fst p = es ! first_pos es (fst p)"
    and ord: "sorted_wrt (\<lambda>a b. first_pos es a < first_pos es b) (map fst d)"
    by (simp_all add: d_def)
  have setS: "set S = set d" by (simp add: S_def)
  have lenS: "length S = length d" by (simp add: S_def)
  have in_d: "S ! m \<in> set d" if "m < length S" for m
    using that setS nth_mem by blast
  have rank: "ranks_before es (fst (S ! i)) (fst (S ! j))" if "i < j" "j < length S" for i j
  proof -
    have i: "i < length S" using that by simp
    from sort_ranking[OF ord, of i j] that
    have "snd (S ! j) < snd (S ! i)
        \<or> (snd (S ! i) = snd (S ! j) \<and> first_pos es (fst (S ! i)) < first_pos es (fst (S ! j)))"
      by (simp add: S_def)
    moreover have "snd (S ! i) = occurrences es (fst (S ! i))" using ent in_d[OF i] by blast
    moreover have "snd (S ! j) = occurrences es (fst (S ! j))" using ent in_d[OF that(2)] by blast
    ultimately show ?thesis by (simp add: ranks_before_def)
  qed
  have nth_top: "tp ! i = S ! i" if "i < length tp" for i
    using that by (simp add: tp)
  have len_top: "i < length S \<and> i < 5" if "i < length tp" for i
    using that by (simp add: tp)
  show "length tp = min 5 (card (dict_key ` set es))"
  proof -
    have "card (set (map (\<lambda>p. dict_key (fst p)) d)) = length (map (\<lambda>p. dict_key (fst p)) d)"
      using dist by (rule distinct_card)
    moreover have "set (map (\<lambda>p. dict_key (fst p)) d) = dict_key ` fst ` set d"
      by (simp add: image_image)
    ultimately have "card (dict_key ` set es) = length d" using keys by simp
    then show ?thesis by (simp add: tp lenS min.commute)
  qed
  show "\<forall>p \<in> set tp. first_pos es (fst p) < length es \<and> fst p = es ! first_pos es (fst p)
           \<and> snd p = occurrences es (fst p)"
  proof
    fix p assume "p \<in> set tp"
    then have "p \<in> set d" using setS by (auto simp: tp dest: in_set_takeD)
    with ent show "first_pos es (fst p) < length es \<and> fst p = es ! first_pos es (fst p)
           \<and> snd p = occurrences es (fst p)" by blast
  qed
  show "\<forall>i j. i < j \<and> j < length tp \<longrightarrow> ranks_before es (fst (tp ! i)) (fst (tp ! j))"
  proof (intro allI impI)
    fix i j assume ij: "i < j \<and> j < length tp"
    then have "i < length tp" by simp
    with ij show "ranks_before es (fst (tp ! i)) (fst (tp ! j))"
      using rank[of i j] len_top[of j] by (simp add: nth_top)
  qed
  show "\<forall>x \<in> set es. dict_key x \<notin> dict_key ` fst ` set tp \<longrightarrow>
           (\<forall>p \<in> set tp. ranks_before es (fst p) x)"
  proof (intro ballI impI)
    fix x q assume x: "x \<in> set es" and out: "dict_key x \<notin> dict_key ` fst ` set tp"
      and q: "q \<in> set tp"
    from x keys obtain p where p: "p \<in> set d" "dict_key (fst p) = dict_key x"
      by (metis (no_types, lifting) image_iff)
    from p(1) setS obtain m where m: "m < length S" "S ! m = p"
      by (metis in_set_conv_nth)
    from q obtain i where i: "i < length tp" "tp ! i = q"
      by (metis in_set_conv_nth)
    have "\<not> m < length tp"
    proof
      assume "m < length tp"
      then have "p \<in> set tp" using nth_top[of m] m(2) nth_mem by metis
      with p(2) out show False by (metis image_eqI)
    qed
    with i(1) have "i < m" by simp
    from rank[OF this m(1)] have "ranks_before es (fst q) (fst p)"
      using nth_top[OF i(1)] i(2) m(2) by simp
    then show "ranks_before es (fst q) x"
      using occurrences_cong[OF p(2), of es] first_pos_cong[OF p(2), of es]
      by (simp add: ranks_before_def)
  qed
qed

lemma get_summary_stats_countable:
  assumes "rs \<noteq> []" and "emotions_countable rs"
  shows "\<exists>s. get_summary_stats rs = Inr (Some s)
           \<and> top_emotions s = top5 (foldl bump [] (emotion_items rs))
           \<and> positive_percentage s = percentage (count_sentiment ''positive'' rs) (length rs)
           \<and> negative_percentage s = percentage (count_sentiment ''negative'' rs) (length rs)
           \<and> neutral_percentage s = percentage (count_sentiment ''neutral'' rs) (length rs)"
proof -
  from assms(2) have it: "list_all (\<lambda>r. \<not> isl (py_iter (emotions r))) rs"
    and h: "list_all py_hashable (emotion_items rs)"
    by (simp_all add: emotions_countable_iff)
  show ?thesis
    using assms(1) all_emotions_Inr[OF it] h
    by (simp add: get_summary_stats_def Let_def count_emotions_foldl)
qed

lemma get_summary_stats_uncountable:
  assumes "rs \<noteq> []" and "\<not> emotions_countable rs"
  shows "get_summary_stats rs = Inl TypeError"
proof (cases "list_all (\<lambda>r. \<not> isl (py_iter (emotions r))) rs")
  case True
  with assms(2) have "\<not> list_all py_hashable (emotion_items rs)"
    by (simp add: emotions_countable_iff)
  then show ?thesis
    using assms(1) all_emotions_Inr[OF True]
    by (simp add: get_summary_stats_def Let_def count_emotions_foldl)
next
  case False
  then show ?thesis
    using assms(1) all_emotions_Inl[OF False]
    by (simp add: get_summary_stats_def Let_def)
qed

section \<open>Percentages\<close>

lemma to_double_error_le:
  assumes "\<bar>x\<bar> \<le> b"
  shows "\<bar>to_double x - x\<bar> \<le> b * (1 / 2 ^ 53)"
proof -
  have "\<bar>x\<bar> / 2 ^ 53 \<le> b / 2 ^ 53"
    using assms by (simp add: divide_right_mono)
  with to_double_error[of x] show ?thesis by simp
qed

lemma percentage_parts:
  assumes "a \<le> n" "0 < n"
  shows "\<exists>k :: int.
           \<bar>rat_of_int k - 1000 * (of_nat a / of_nat n)\<bar> \<le> 1/2 + 3000 * (1 / 2 ^ 53)
         \<and> \<bar>percentage a n - rat_of_int k / 10\<bar> \<le> 101 * (1 / 2 ^ 53)"
proof -
  define e :: rat where "e = 1 / 2 ^ 53"
  have e: "0 < e" "e < 1 / 10000" by (simp_all add: e_def)
  define x :: rat where "x = of_nat a / of_nat n"
  have x0: "0 \<le> x" by (simp add: x_def)
  have x1: "x \<le> 1" using assms by (simp add: x_def)
  define q where "q = to_double x"
  have "\<bar>x\<bar> \<le> 1" using x0 x1 by simp
  then have q: "\<bar>q - x\<bar> \<le> 1 * e"
    unfolding q_def e_def by (rule to_double_error_le)
  have "\<bar>q\<bar> \<le> 2" using q x0 x1 e by linarith
  then have "\<bar>q * 100\<bar> \<le> 200" by (simp add: abs_mult)
  define m where "m = to_double (q * 100)"
  have "\<bar>m - q * 100\<bar> \<le> 200 * e"
    unfolding m_def e_def using \<open>\<bar>q * 100\<bar> \<le> 200\<close> by (rule to_double_error_le)
  with q have m: "\<bar>m - 100 * x\<bar> \<le> 300 * e" by linarith
  define k where "k = round_half_even (m * 10 ^ 1)"
  have "\<bar>rat_of_int k - m * 10\<bar> \<le> 1/2"
    using rhe_bounds[of "m * 10"] by (simp add: k_def)
  with m have kx: "\<bar>rat_of_int k - 1000 * x\<bar> \<le> 1/2 + 3000 * e" by linarith
  with x0 x1 e have "\<bar>rat_of_int k\<bar> \<le> 1010" by linarith
  then have "\<bar>rat_of_int k / 10\<bar> \<le> 101" by simp
  then have "\<bar>to_double (rat_of_int k / 10) - rat_of_int k / 10\<bar> \<le> 101 * e"
    unfolding e_def by (rule to_double_error_le)
  moreover have "percentage a n = to_double (rat_of_int k / 10)"
    by (simp add: percentage_def py_round_def float_mul_def int_truediv_def k_def m_def q_def x_def)
  ultimately have "\<bar>rat_of_int k - 1000 * (of_nat a / of_nat n)\<bar> \<le> 1/2 + 3000 * (1 / 2 ^ 53)
         \<and> \<bar>percentage a n - rat_of_int k / 10\<bar> \<le> 101 * (1 / 2 ^ 53)"
    using kx unfolding x_def e_def by simp
  then show ?thesis by (rule exI)
qed

lemma percentage_sum:
  assumes "0 < n" "a + b + c = n"
  shows "\<bar>percentage a n + percentage b n + percentage c n - 100\<bar> \<le> 1/10 + 1 / 2 ^ 44"
proof -
  define e :: rat where "e = 1 / 2 ^ 53"
  have e: "0 < e" "e < 1 / 100000" by (simp_all add: e_def)
  have e44: "1 / 2 ^ 44 = 512 * e" by (simp add: e_def)
  have le: "a \<le> n" "b \<le> n" "c \<le> n" using assms(2) by simp_all
  from percentage_parts[OF le(1) assms(1)] obtain ka :: int where
    ka: "\<bar>rat_of_int ka - 1000 * (of_nat a / of_nat n)\<bar> \<le> 1/2 + 3000 * e"
        "\<bar>percentage a n - rat_of_int ka / 10\<bar> \<le> 101 * e"
    unfolding e_def by blast
  from percentage_parts[OF le(2) assms(1)] obtain kb :: int where
    kb: "\<bar>rat_of_int kb - 1000 * (of_nat b / of_nat n)\<bar> \<le> 1/2 + 3000 * e"
        "\<bar>percentage b n - rat_of_int kb / 10\<bar> \<le> 101 * e"
    unfolding e_def by blast
  from percentage_parts[OF le(3) assms(1)] obtain kc :: int where
    kc: "\<bar>rat_of_int kc - 1000 * (of_nat c / of_nat n)\<bar> \<le> 1/2 + 3000 * e"
        "\<bar>percentage c n - rat_of_int kc / 10\<bar> \<le> 101 * e"
    unfolding e_def by blast
  have "(of_nat a + of_nat b + of_nat c :: rat) = of_nat n"
    using assms(2) by (metis of_nat_add)
  then have one: "(of_nat a / of_nat n + of_nat b / of_nat n + of_nat c / of_nat n :: rat) = 1"
    using assms(1) by (simp add: add_divide_distrib[symmetric])
  define K where "K = ka + kb + kc - 1000"
  have Kr: "rat_of_int K = rat_of_int ka + rat_of_int kb + rat_of_int kc - 1000"
    by (simp add: K_def)
  have "\<bar>rat_of_int K\<bar> < 2"
    unfolding Kr using ka(1) kb(1) kc(1) one e by linarith
  then have "\<bar>rat_of_int K\<bar> < rat_of_int 2" by simp
  then have "\<bar>K\<bar> < 2"
    by (metis of_int_abs of_int_less_iff)
  then have "\<bar>K\<bar> \<le> 1" by simp
  then have "\<bar>rat_of_int K\<bar> \<le> rat_of_int 1"
    by (metis of_int_abs of_int_le_iff)
  then have "\<bar>rat_of_int ka + rat_of_int kb + rat_of_int kc - 1000\<bar> \<le> 1"
    unfolding Kr by simp
  then show ?thesis
    unfolding e44 using ka(2) kb(2) kc(2) e by linarith
qed

text \<open>One part in three: \<^verbatim>\<open>round((1 / 3) * 100, 1)\<close> is the double next below 33.3.\<close>

lemma int_truediv_1_3: "int_truediv 1 3 = 6004799503160661 / 18014398509481984"
  unfolding int_truediv_def
  using to_double_eqI[of "1/3" "-2" 6004799503160661]
  by (simp add: power_int_minus_divide)

lemma float_mul_third_100:
  "float_mul (6004799503160661 / 18014398509481984) 100 = 2345624805922133 / 70368744177664"
  unfolding float_mul_def
  using to_double_eqI[of "6004799503160661 / 18014398509481984 * 100" 5 4691249611844266]
  by (simp add: power_int_minus_divide)

lemma py_round_third:
  "py_round (2345624805922133 / 70368744177664) 1 = 2343279181116211 / 70368744177664"
proof -
  have "round_half_even (2345624805922133 / 70368744177664 * 10 ^ 1) = 333"
    by (rule rhe_unique) simp
  moreover have "to_double (333 / 10) = 2343279181116211 / 70368744177664"
    using to_double_eqI[of "333/10" 5 4686558362232422]
    by (simp add: power_int_minus_divide)
  ultimately show ?thesis
    by (simp add: py_round_def)
qed

lemma percentage_1_3: "percentage 1 3 = 2343279181116211 / 70368744177664"
  by (simp only: percentage_def int_truediv_1_3 float_mul_third_100 py_round_third)

lemma count_sentiment_total:
  "\<forall>r \<in> set rs. sentiment r \<in> set sentiments \<Longrightarrow>
   count_sentiment ''positive'' rs + count_sentiment ''negative'' rs
     + count_sentiment ''neutral'' rs = length rs"
  by (induction rs) (auto simp: count_sentiment_def sentiments_def)

section \<open>The claims\<close>

text \<open>
  Claim C1. The orchestrator is to return one result per text, position by position, also
  when the array of a chunk omits an entry. It does not: seven texts whose first chunk
  comes back without the entry of id 3 give six results, and the entry of id 4 (the
  negative one) is paired with the fourth text.
\<close>

theorem analyze_batch_drops_omitted_entry:
  "length (fst (analyze_batch env_omits [] seven_texts)) = 6
   \<and> map sentiment (fst (analyze_batch env_omits [] seven_texts))
       = [''positive'', ''positive'', ''positive'', ''negative'', ''neutral'', ''neutral'']
   \<and> map original_text (fst (analyze_batch env_omits [] seven_texts))
       = [''t0'', ''t1'', ''t2'', ''t3'', ''t5'', ''t6'']"
  by (simp add: analyze_batch.simps analyze_batch_gemini_def env_omits_def seven_texts_def
      py_iter_def entry_def validate_result_def py_get_def dict_get_def py_lower_def
      py_float_def py_int_def lower_def lower_char_def sentiments_def float_min_def
      float_max_def truncate_text_def Let_def)




text \<open>
  Claim C3, as stated, fails on the validator path: the record \<^verbatim>\<open>{"emotions": []}\<close> is
  validated into a result whose list of emotions is empty.
\<close>

theorem validate_result_keeps_empty_emotions:
  "validate_result env_down (JObj [(''emotions'', JArr [])]) ''abc'' =
     Inr \<lparr> sentiment = ''neutral'', confidence = Fin (1/2), emotions = JArr [],
           key_phrases = JArr [], intensity = 5, original_text = ''abc'', analyzed_at = 0 \<rparr>
   \<and> \<not> result_domain \<lparr> sentiment = ''neutral'', confidence = Fin (1/2), emotions = JArr [],
           key_phrases = JArr [], intensity = 5, original_text = ''abc'', analyzed_at = 0 \<rparr>"
  by (simp add: validate_result_def py_get_def dict_get_def py_lower_def py_float_def py_int_def
     lower_def lower_char_def sentiments_def float_min_def float_max_def truncate_text_def
     env_down_def result_domain_def)

text \<open>
  Claim C3, amended. Every result, of the validator, of the fallback and of the
  orchestrator, has its sentiment among the three labels, its confidence between 0 and 1
  and its intensity between 1 and 10. A result of the fallback is in the whole domain.
  A validated result carries the \<^verbatim>\<open>emotions\<close> and \<^verbatim>\<open>key_phrases\<close> of the record as they are,
  unchecked, and the defaults where the record has none.
\<close>

theorem results_core_domain:
  "(validate_result E res t = Inr r \<longrightarrow>
       core_domain r
     \<and> emotions r = (case json_field res ''emotions'' of None \<Rightarrow> JArr [JStr ''neutral''] | Some v \<Rightarrow> v)
     \<and> key_phrases r = (case json_field res ''key_phrases'' of None \<Rightarrow> JArr [] | Some v \<Rightarrow> v))
   \<and> result_domain (fallback_analysis E t)
   \<and> core_domain (fst (analyze_single_text E calls t))
   \<and> (\<forall>r' \<in> set (fst (analyze_batch E calls texts)). core_domain r')"
  using validate_result_core[of E res t r] validate_result_lists[of E res t r]
    fallback_analysis_domain[of E t] single_outcome_core[of E "length calls" t]
    analyze_batch_core[of _ E calls texts]
  by (auto simp: fst_analyze_single_text)

theorem results_core_domain_witness:
  "validate_result env_down (JObj [(''emotions'', JInt 7)]) ''abc'' =
      Inr \<lparr> sentiment = ''neutral'', confidence = Fin (1/2), emotions = JInt 7,
           key_phrases = JArr [], intensity = 5, original_text = ''abc'', analyzed_at = 0 \<rparr>
   \<and> core_domain \<lparr> sentiment = ''neutral'', confidence = Fin (1/2), emotions = JInt 7,
           key_phrases = JArr [], intensity = 5, original_text = ''abc'', analyzed_at = 0 \<rparr>
   \<and> fst (analyze_batch env_down [] [''bad'']) \<noteq> []
   \<and> list_all core_domain (fst (analyze_batch env_down [] [''bad'']))"
proof -
  let ?r = "\<lparr> sentiment = ''neutral'', confidence = Fin (1/2), emotions = JInt 7,
           key_phrases = JArr [], intensity = 5, original_text = ''abc'', analyzed_at = 0 \<rparr>"
  have v: "validate_result env_down (JObj [(''emotions'', JInt 7)]) ''abc'' = Inr ?r"
    by (simp add: validate_result_def py_get_def dict_get_def py_lower_def py_float_def py_int_def
     lower_def lower_char_def sentiments_def float_min_def float_max_def truncate_text_def
     env_down_def)
  have n: "fst (analyze_batch env_down [] [''bad'']) \<noteq> []"
    by (simp add: analyze_batch.simps analyze_batch_gemini_def env_down_def Let_def split_beta)
  show ?thesis
    using results_core_domain[of env_down "JObj [(''emotions'', JInt 7)]" "''abc''" ?r "[]" "[''bad'']"]
      v n by (simp add: list_all_iff)
qed

text \<open>
  Claim C4, as stated, fails: when the call for a chunk raises, the analyzer calls the
  model again, once per text of the chunk, and a text whose individual call succeeds
  gets the validated answer, not the fallback.
\<close>

theorem failed_chunk_is_resubmitted:
  "snd (analyze_batch_gemini env_retry [] [''bad'']) = [BatchPrompt [''bad''], SinglePrompt ''bad'']
   \<and> map sentiment (fst (analyze_batch_gemini env_retry [] [''bad''])) = [''positive'']
   \<and> sentiment (fallback_analysis env_retry ''bad'') = ''negative''"
  by (simp add: analyze_batch_gemini_def analyze_single_text_def env_retry_def Let_def
      validate_result_def py_get_def dict_get_def py_lower_def py_float_def py_int_def
      lower_def lower_char_def sentiments_def fallback_analysis_def word_count_def
      positive_words_def negative_words_def)

text \<open>
  Claim C4, amended. When a chunk fails, the chunk is not called again; each of its texts
  is submitted once more on its own, in order, so the chunk costs one call plus one per
  text. The result of a text is the validated answer of its individual call, and the
  fallback only when that call fails too.
\<close>

theorem failed_chunk_individual_calls:
  assumes "chunk_failed E calls texts"
  shows "snd (analyze_batch_gemini E calls texts) = calls @ BatchPrompt texts # map SinglePrompt texts
    \<and> length (fst (analyze_batch_gemini E calls texts)) = length texts
    \<and> (\<forall>i < length texts. fst (analyze_batch_gemini E calls texts) ! i
           = single_outcome E (length calls + 1 + i) (texts ! i))"
  using assms
  by (simp add: chunk_failed_each calls_analyze_each length_analyze_each nth_analyze_each
      fst_analyze_single_text)

theorem failed_chunk_individual_calls_witness:
  "chunk_failed env_retry [] [''bad'']
   \<and> snd (analyze_batch_gemini env_retry [] [''bad'']) = [BatchPrompt [''bad''], SinglePrompt ''bad'']
   \<and> length (fst (analyze_batch_gemini env_retry [] [''bad''])) = 1
   \<and> fst (analyze_batch_gemini env_retry [] [''bad'']) ! 0 = single_outcome env_retry 1 ''bad''"
proof -
  have c: "chunk_failed env_retry [] [''bad'']"
    by (simp add: chunk_failed_def env_retry_def)
  show ?thesis
    using failed_chunk_individual_calls[OF c] c by simp
qed

text \<open>
  Claim C5, as stated, fails: in \<^verbatim>\<open>good good bad\<close> the positive words occur twice and the
  negative words once, yet the fallback answers neutral with confidence 0.5, because it
  counts a word of a list once however often it occurs.
\<close>

theorem fallback_counts_words_once:
  "occurrence_count negative_words (lower ''good good bad'')
     < occurrence_count positive_words (lower ''good good bad'')
   \<and> sentiment (fallback_analysis env_down ''good good bad'') = ''neutral''
   \<and> confidence (fallback_analysis env_down ''good good bad'') = Fin (1/2)"
  by (simp add: lower_good_good_bad occurrence_count_def fallback_analysis_def word_count_def
      positive_words_def negative_words_def)

text \<open>
  Claim C5, amended. The fallback depends on the text alone, the time stamp apart. With
  \<open>P\<close> the number of words of the positive list that are a part of the lower-cased text,
  and \<open>N\<close> the same for the negative list, it answers positive with the float 0.6 when
  \<open>P > N\<close>, negative with 0.6 when \<open>N > P\<close>, and neutral with 0.5 otherwise; the emotions
  are \<^verbatim>\<open>["neutral"]\<close>, the key phrases empty and the intensity 5.
\<close>

theorem fallback_analysis_presence:
  "fallback_analysis E t =
     (let P = card {w \<in> set positive_words. \<exists>a b. lower t = a @ w @ b};
          N = card {w \<in> set negative_words. \<exists>a b. lower t = a @ w @ b}
      in \<lparr> sentiment = (if N < P then ''positive'' else if P < N then ''negative'' else ''neutral''),
           confidence = Fin (if P = N then 1/2 else to_double (6/10)),
           emotions = JArr [JStr ''neutral''],
           key_phrases = JArr [],
           intensity = 5,
           original_text = truncate_text t,
           analyzed_at = now E \<rparr>)"
  unfolding word_count_card[OF distinct_positive_words, symmetric]
    word_count_card[OF distinct_negative_words, symmetric]
  by (simp add: fallback_analysis_def Let_def)

text \<open>
  Claim C6, as stated, fails: for the empty list the aggregator returns the empty
  dictionary, which has no \<^verbatim>\<open>total_analyzed\<close> and no counts.
\<close>

theorem empty_stats_have_no_total:
  "map_option total_analyzed (projr (get_summary_stats [])) \<noteq> Some 0"
  by (simp add: get_summary_stats_def)

text \<open>
  Claim C6, amended. For the empty list of results the aggregator returns the empty
  dictionary: no field is present.
\<close>

theorem get_summary_stats_empty: "get_summary_stats [] = Inr None"
  by (simp add: get_summary_stats_def)

text \<open>
  Claim C7, as stated, fails: a list of results that the orchestrator returns need not
  have lists for its emotions. When the model answers \<^verbatim>\<open>"emotions": 7\<close>, the validated
  result carries the 7, and the aggregator raises TypeError instead of computing
  \<^verbatim>\<open>top_emotions\<close>.
\<close>

theorem top_emotions_not_computed:
  "map emotions (fst (analyze_batch env_seven [] [''a'', ''b''])) = [JInt 7, JArr [JStr ''neutral'']]
   \<and> get_summary_stats (fst (analyze_batch env_seven [] [''a'', ''b''])) = Inl TypeError"
  by (simp add: analyze_batch.simps analyze_batch_gemini_def env_seven_def py_iter_def
      validate_result_def py_get_def dict_get_def py_lower_def py_float_def py_int_def
      lower_def lower_char_def sentiments_def float_min_def float_max_def truncate_text_def
      get_summary_stats_def Let_def)

text \<open>
  Claim C7, amended. For a non-empty list of results the aggregator raises TypeError when
  the emotions of some result cannot be iterated or give a value that is not hashable.
  Otherwise it returns statistics whose \<^verbatim>\<open>top_emotions\<close> is determined as follows, with
  \<open>es\<close> the emotions of all the results in order, values that are equal in Python being
  one emotion. It has exactly as many entries as there are emotions, but at most 5. Each
  entry pairs the value with which its emotion occurs first in \<open>es\<close> with the number of
  occurrences of that emotion in \<open>es\<close>. An entry is listed before another when it has
  more occurrences, or as many and occurs first earlier. Every emotion that is not listed
  has fewer occurrences than every entry, or as many and occurs first later.
\<close>

theorem top_emotions_ranking:
  assumes "rs \<noteq> []"
  shows "if emotions_countable rs
     then \<exists>s. get_summary_stats rs = Inr (Some s)
       \<and> length (top_emotions s) = min 5 (card (dict_key ` set (emotion_items rs)))
       \<and> (\<forall>p \<in> set (top_emotions s).
             first_pos (emotion_items rs) (fst p) < length (emotion_items rs)
           \<and> fst p = emotion_items rs ! first_pos (emotion_items rs) (fst p)
           \<and> snd p = occurrences (emotion_items rs) (fst p))
       \<and> (\<forall>i j. i < j \<and> j < length (top_emotions s) \<longrightarrow>
             ranks_before (emotion_items rs) (fst (top_emotions s ! i)) (fst (top_emotions s ! j)))
       \<and> (\<forall>x \<in> set (emotion_items rs). dict_key x \<notin> dict_key ` fst ` set (top_emotions s) \<longrightarrow>
             (\<forall>p \<in> set (top_emotions s). ranks_before (emotion_items rs) (fst p) x))
     else get_summary_stats rs = Inl TypeError"
proof (cases "emotions_countable rs")
  case False
  then show ?thesis using get_summary_stats_uncountable[OF assms] by simp
next
  case True
  from get_summary_stats_countable[OF assms True] obtain s where
    s: "get_summary_stats rs = Inr (Some s)"
    and t: "top_emotions s = top5 (foldl bump [] (emotion_items rs))"
    by blast
  have "get_summary_stats rs = Inr (Some s)
       \<and> length (top_emotions s) = min 5 (card (dict_key ` set (emotion_items rs)))
       \<and> (\<forall>p \<in> set (top_emotions s).
             first_pos (emotion_items rs) (fst p) < length (emotion_items rs)
           \<and> fst p = emotion_items rs ! first_pos (emotion_items rs) (fst p)
           \<and> snd p = occurrences (emotion_items rs) (fst p))
       \<and> (\<forall>i j. i < j \<and> j < length (top_emotions s) \<longrightarrow>
             ranks_before (emotion_items rs) (fst (top_emotions s ! i)) (fst (top_emotions s ! j)))
       \<and> (\<forall>x \<in> set (emotion_items rs). dict_key x \<notin> dict_key ` fst ` set (top_emotions s) \<longrightarrow>
             (\<forall>p \<in> set (top_emotions s). ranks_before (emotion_items rs) (fst p) x))"
    (is "?P s")
    unfolding t
    using s top5_characterised[of "emotion_items rs"]
    by (intro conjI)
  then have "\<exists>s. ?P s" by (rule exI)
  with True show ?thesis by (simp only: if_True)
qed

theorem top_emotions_ranking_witness:
  "nine_emotions \<noteq> []
   \<and> emotions_countable nine_emotions
   \<and> map_option top_emotions (projr (get_summary_stats nine_emotions))
       = Some [(JStr ''z'', 3), (JStr ''a'', 1), (JStr ''b'', 1), (JStr ''c'', 1), (JStr ''d'', 1)]
   \<and> (\<exists>s. get_summary_stats nine_emotions = Inr (Some s)
       \<and> length (top_emotions s) = min 5 (card (dict_key ` set (emotion_items nine_emotions)))
       \<and> (\<forall>p \<in> set (top_emotions s).
             first_pos (emotion_items nine_emotions) (fst p) < length (emotion_items nine_emotions)
           \<and> fst p = emotion_items nine_emotions ! first_pos (emotion_items nine_emotions) (fst p)
           \<and> snd p = occurrences (emotion_items nine_emotions) (fst p))
       \<and> (\<forall>i j. i < j \<and> j < length (top_emotions s) \<longrightarrow>
             ranks_before (emotion_items nine_emotions)
               (fst (top_emotions s ! i)) (fst (top_emotions s ! j)))
       \<and> (\<forall>x \<in> set (emotion_items nine_emotions).
             dict_key x \<notin> dict_key ` fst ` set (top_emotions s) \<longrightarrow>
             (\<forall>p \<in> set (top_emotions s). ranks_before (emotion_items nine_emotions) (fst p) x)))"
proof -
  have a: "nine_emotions \<noteq> []" by (simp add: nine_emotions_def)
  have c: "emotions_countable nine_emotions"
    by (simp add: nine_emotions_def mk_result_def emotions_countable_def py_iter_def)
  have v: "map_option top_emotions (projr (get_summary_stats nine_emotions))
       = Some [(JStr ''z'', 3), (JStr ''a'', 1), (JStr ''b'', 1), (JStr ''c'', 1), (JStr ''d'', 1)]"
    by (simp add: get_summary_stats_def nine_emotions_def mk_result_def py_iter_def top5_def Let_def)
  from top_emotions_ranking[OF a] a c v show ?thesis
    by (simp only: if_True simp_thms)
qed

text \<open>
  Claim C8, as stated, fails by the rounding of doubles: for three results, one of each
  sentiment, every percentage is the double \<open>2343279181116211 / 2 ^ 46\<close> that
  \<^verbatim>\<open>round(..., 1)\<close> returns for 33.3, which lies below 33.3, and the three add up to less
  than 99.9.
\<close>

theorem percentages_of_thirds:
  "get_summary_stats three_results =
     Inr (Some \<lparr> total_analyzed = 3, positive_count = 1, negative_count = 1, neutral_count = 1,
                 positive_percentage = 2343279181116211 / 70368744177664,
                 negative_percentage = 2343279181116211 / 70368744177664,
                 neutral_percentage = 2343279181116211 / 70368744177664,
                 top_emotions = [(JStr ''joy'', 2), (JStr ''anger'', 1), (JStr ''calm'', 1)] \<rparr>)
   \<and> (1/10 :: rat) < \<bar>2343279181116211 / 70368744177664 + 2343279181116211 / 70368744177664
                        + 2343279181116211 / 70368744177664 - 100\<bar>"
proof -
  have p: "percentage (Suc 0) (Suc (Suc (Suc 0))) = 2343279181116211 / 70368744177664"
    using percentage_1_3 by (simp add: numeral_3_eq_3)
  show ?thesis
    by (simp add: get_summary_stats_def three_results_def mk_result_def py_iter_def top5_def
        count_sentiment_def Let_def p)
qed

text \<open>
  Claim C8, amended. For a non-empty list of results whose sentiments are among the three
  labels, the aggregator raises TypeError when the emotions of some result cannot be
  iterated or give a value that is not hashable; otherwise it returns statistics whose
  three percentages add up to a value within \<open>0.1 + 2 ^ -44\<close> of 100: within 0.1 but for
  the rounding of the doubles.
\<close>

theorem percentages_sum_near_100:
  assumes "rs \<noteq> []" and "\<forall>r \<in> set rs. sentiment r \<in> set sentiments"
  shows "if emotions_countable rs
     then \<exists>s. get_summary_stats rs = Inr (Some s)
       \<and> \<bar>positive_percentage s + negative_percentage s + neutral_percentage s - 100\<bar>
           \<le> 1/10 + 1 / 2 ^ 44
     else get_summary_stats rs = Inl TypeError"
proof (cases "emotions_countable rs")
  case False
  then show ?thesis using get_summary_stats_uncountable[OF assms(1)] by simp
next
  case True
  from get_summary_stats_countable[OF assms(1) True] obtain s where
    s: "get_summary_stats rs = Inr (Some s)"
    and p: "positive_percentage s = percentage (count_sentiment ''positive'' rs) (length rs)"
           "negative_percentage s = percentage (count_sentiment ''negative'' rs) (length rs)"
           "neutral_percentage s = percentage (count_sentiment ''neutral'' rs) (length rs)"
    by blast
  have n: "0 < length rs" using assms(1) by simp
  from percentage_sum[OF n count_sentiment_total[OF assms(2)]]
  have "\<bar>positive_percentage s + negative_percentage s + neutral_percentage s - 100\<bar>
         \<le> 1/10 + 1 / 2 ^ 44"
    unfolding p .
  with s have "get_summary_stats rs = Inr (Some s)
       \<and> \<bar>positive_percentage s + negative_percentage s + neutral_percentage s - 100\<bar>
           \<le> 1/10 + 1 / 2 ^ 44" (is "?P s") by (rule conjI)
  then have "\<exists>s. ?P s" by (rule exI)
  with True show ?thesis by (simp only: if_True)
qed

theorem percentages_sum_near_100_witness:
  "happy_results \<noteq> []
   \<and> list_all (\<lambda>r. sentiment r \<in> set sentiments) happy_results
   \<and> emotions_countable happy_results
   \<and> (\<exists>s. get_summary_stats happy_results = Inr (Some s)
     \<and> \<bar>positive_percentage s + negative_percentage s + neutral_percentage s - 100\<bar>
         \<le> 1/10 + 1 / 2 ^ 44)"
proof -
  have a: "happy_results \<noteq> []" by (simp add: happy_results_def)
  have b: "\<forall>r \<in> set happy_results. sentiment r \<in> set sentiments"
    by (simp add: happy_results_def mk_result_def sentiments_def)
  have c: "emotions_countable happy_results"
    by (simp add: happy_results_def mk_result_def emotions_countable_def py_iter_def)
  from percentages_sum_near_100[OF a b] a b c show ?thesis
    by (simp only: if_True list_all_iff simp_thms)
qed

text \<open>
  Claim C9. On every path the step for one chunk returns at most as many results as the
  chunk has texts.
\<close>

theorem analyze_batch_gemini_length:
  "length (fst (analyze_batch_gemini E calls texts)) \<le> length texts"
  by (auto simp: analyze_batch_gemini_def Let_def length_analyze_each
      dest: length_validate_all split: response.splits sum.splits)

text \<open>
  Claim C10. For the empty list of texts \<^verbatim>\<open>analyze_batch\<close> returns the empty list and
  issues no call.
\<close>

theorem analyze_batch_empty: "analyze_batch E calls [] = ([], calls)"
  by (simp add: analyze_batch.simps)


end
